theory Spec2Isabelle
  imports Main
begin

section \<open>Python string operations used by main.py\<close>

text \<open>
  A Python \<open>str\<close> is modelled as a \<open>string\<close>: a list of characters, each a code point
  below 256. On that range \<open>str.lower\<close> maps one character to one character and
  \<open>str.isspace\<close> is a fixed set, both written out below. Code points of 256 and more
  are outside the model.
\<close>

definition lower_char :: "char \<Rightarrow> char" where
  "lower_char c =
     (let n = (of_char c :: nat)
      in if (65 \<le> n \<and> n \<le> 90) \<or> (192 \<le> n \<and> n \<le> 222 \<and> n \<noteq> 215)
         then char_of (n + 32) else c)"

definition lower :: "string \<Rightarrow> string" where
  "lower s = map lower_char s"

definition isspace :: "char \<Rightarrow> bool" where
  "isspace c =
     (let n = (of_char c :: nat)
      in (9 \<le> n \<and> n \<le> 13) \<or> (28 \<le> n \<and> n \<le> 32) \<or> n = 133 \<or> n = 160)"

text \<open>\<open>s.strip()\<close>: whitespace is dropped at both ends.\<close>

definition strip :: "string \<Rightarrow> string" where
  "strip s = rev (dropWhile isspace (rev (dropWhile isspace s)))"

text \<open>\<open>s.startswith(p)\<close>.\<close>

fun startswith :: "string \<Rightarrow> string \<Rightarrow> bool" where
  "startswith s [] = True"
| "startswith [] (p # ps) = False"
| "startswith (c # cs) (p # ps) = (c = p \<and> startswith cs ps)"

text \<open>\<open>sub in s\<close>: \<open>sub\<close> occurs in \<open>s\<close> as a contiguous substring.\<close>

fun contains :: "string \<Rightarrow> string \<Rightarrow> bool" where
  "contains sub [] = (sub = [])"
| "contains sub (c # cs) = (startswith (c # cs) sub \<or> contains sub cs)"

text \<open>
  \<open>s.replace(old, new)\<close>: every occurrence of \<open>old\<close>, found from the left without
  overlaps, is replaced. Every call in main.py passes a non-empty literal for \<open>old\<close>;
  the guard \<open>old \<noteq> []\<close> only makes the recursion terminate.
\<close>

function replace :: "string \<Rightarrow> string \<Rightarrow> string \<Rightarrow> string" where
  "replace old new [] = []"
| "replace old new (c # cs) =
     (if old \<noteq> [] \<and> startswith (c # cs) old
      then new @ replace old new (drop (length old) (c # cs))
      else c # replace old new cs)"
  by pat_completeness auto
termination
  by (relation "measure (\<lambda>(old, new, s). length s)") auto

text \<open>\<open>s.replace(old, new, 1)\<close>: only the first occurrence is replaced.\<close>

fun replace_first :: "string \<Rightarrow> string \<Rightarrow> string \<Rightarrow> string" where
  "replace_first old new [] = []"
| "replace_first old new (c # cs) =
     (if old \<noteq> [] \<and> startswith (c # cs) old
      then new @ drop (length old) (c # cs)
      else c # replace_first old new cs)"

text \<open>
  \<open>s.split(sep)\<close> for a non-empty separator: the pieces between the occurrences of
  \<open>sep\<close>, in order; \<open>cur\<close> holds the piece being read.
\<close>

function split_acc :: "string \<Rightarrow> string \<Rightarrow> string \<Rightarrow> string list" where
  "split_acc sep [] cur = [cur]"
| "split_acc sep (c # cs) cur =
     (if sep \<noteq> [] \<and> startswith (c # cs) sep
      then cur # split_acc sep (drop (length sep) (c # cs)) []
      else split_acc sep cs (cur @ [c]))"
  by pat_completeness auto
termination
  by (relation "measure (\<lambda>(sep, s, cur). length s)") auto

definition split :: "string \<Rightarrow> string \<Rightarrow> string list" where
  "split sep s = split_acc sep s []"

text \<open>\<open>sep.join(xs)\<close>.\<close>

fun join :: "string \<Rightarrow> string list \<Rightarrow> string" where
  "join sep [] = []"
| "join sep [x] = x"
| "join sep (x # y # ys) = x @ sep @ join sep (y # ys)"

definition newline :: string where
  "newline = [CHR 0x0A]"

section \<open>The response normalizer: \<open>enhance_response_authority\<close>\<close>

text \<open>The three phrases tested at lines 177-178: an answer holding one of them is a refusal.\<close>

definition refusal_phrases :: "string list" where
  "refusal_phrases = [''cannot answer'', ''not available'', ''don't have information'']"

definition is_refusal :: "string \<Rightarrow> bool" where
  "is_refusal response = list_ex (\<lambda>p. contains p (lower response)) refusal_phrases"

definition formal_phrases :: "string list" where
  "formal_phrases =
    [''According to the documentation, '',
     ''This is explicitly stated in the documentation. '',
     ''The system documentation specifies that '',
     ''As documented in the system, '',
     ''The documentation indicates '',
     ''As outlined in the documentation, '',
     ''The official procedure is: '',
     ''Documented steps are: '',
     ''System requirements include: '',
     ''These are the documented requirements'',
     ''This process is fully documented'',
     ''This information is documented in the official system documentation.'']"

definition verbose_phrases :: "string list" where
  "verbose_phrases =
    [''you need to follow these steps:'',
     ''the process is as follows:'',
     ''the way to do this is:'']"

definition skip_phrases :: "string list" where
  "skip_phrases = [''that's it!'', ''you've successfully'', ''once you've filled'']"

definition starters :: "string list" where
  "starters =
    [''to'', ''you'', ''here'', ''first'', ''steps'', ''simply'', ''just'', ''when'', ''if'',
     ''1.'', ''yes'', ''no'', ''there are'', ''the system'']"

definition fallback_sentence :: string where
  "fallback_sentence = ''I can help you with that based on the system documentation.''"

text \<open>\<open>for phrase in phrases: response = response.replace(phrase, "")\<close>.\<close>

fun remove_all :: "string list \<Rightarrow> string \<Rightarrow> string" where
  "remove_all [] response = response"
| "remove_all (phrase # phrases) response = remove_all phrases (replace phrase [] response)"

text \<open>Lines 196-211: the formal phrases, the markers, the tone substitutions, the strip.\<close>

definition rewrite :: "string \<Rightarrow> string" where
  "rewrite response =
     (let r = remove_all formal_phrases response;
          r = replace ''**'' [] r;
          r = replace ''- '' [] r;
          r = replace ''* '' [] r;
          r = replace ''The system requires'' ''You need to'' r;
          r = replace ''The documentation specifies'' [] r;
          r = replace ''official system procedures'' ''steps'' r;
          r = replace ''documented procedures'' ''steps'' r;
          r = replace ''cannot be added'' ''can't be used in'' r;
          r = replace ''can only be added'' ''can only be used in'' r
      in strip r)"

text \<open>Lines 231-236: the loop over the lines, keeping the stripped lines that pass.\<close>

fun cleaned_lines :: "string list \<Rightarrow> string list" where
  "cleaned_lines [] = []"
| "cleaned_lines (line # lines) =
     (let l = strip line
      in if l \<noteq> [] \<and> \<not> list_ex (\<lambda>p. contains p (lower l)) skip_phrases
         then l # cleaned_lines lines
         else cleaned_lines lines)"

text \<open>
  Lines 196-238: the answer as it stands before the test for emptiness. The branch at
  lines 214-217 only executes \<open>pass\<close> and is left out.
\<close>

definition cleaned :: "string \<Rightarrow> string" where
  "cleaned response =
     join newline (cleaned_lines (split newline (remove_all verbose_phrases (rewrite response))))"

text \<open>Lines 243-251: the final rule, which may put one prefix in front of the answer.\<close>

definition add_opener :: "string \<Rightarrow> string" where
  "add_opener response =
     (if \<not> list_ex (\<lambda>starter. startswith (lower response) starter) starters
      then if list_ex (\<lambda>w. contains w (take 30 (lower response)))
                [''click'', ''press'', ''go to'', ''navigate'']
           then ''To do this: '' @ response
           else if startswith (lower response) ''1.''
           then ''Steps:'' @ newline @ response
           else if list_ex (\<lambda>w. contains w (take 20 (lower response)))
                     [''machine'', ''vehicle'', ''trailer'', ''equipment'']
           then ''Here's how equipment works: '' @ response
           else response
      else response)"

definition enhance_response_authority :: "string \<Rightarrow> string" where
  "enhance_response_authority response =
     (if is_refusal response then response
      else let r = cleaned response
           in if r = [] then fallback_sentence else add_opener r)"

text \<open>The three prefixes that lines 247, 249 and 251 can put in front.\<close>

definition added_prefixes :: "string list" where
  "added_prefixes = [''To do this: '', ''Steps:'' @ newline, ''Here's how equipment works: '']"

section \<open>The question decomposer: \<open>split_question_into_parts\<close>\<close>

text \<open>
  What an external call raises. Only instances of Python's \<open>Exception\<close> are modelled
  (each with its message); \<open>RuntimeError\<close> is the one that \<open>chat\<close> raises itself.
\<close>

datatype exn = RuntimeError string | Exception string

text \<open>Lines 145-151: the context is looked for in the first fragment only.\<close>

definition base_context :: "string \<Rightarrow> string" where
  "base_context part0 =
     (if contains ''tiling'' (lower part0) then ''tiling ''
      else if contains ''repair'' (lower part0) then ''repair ''
      else if contains ''excavation'' (lower part0) then ''excavation ''
      else [])"

text \<open>Lines 159-167: the textual repairs of one fragment after the first, already stripped.\<close>

definition repair_part :: "string \<Rightarrow> string \<Rightarrow> string" where
  "repair_part ctx part =
     (if ctx \<noteq> [] \<and> \<not> contains (strip ctx) (lower part)
      then if startswith part ''how to''
           then replace_first ''how to'' (''how to '' @ ctx) part
           else if startswith part ''what''
           then (if contains ''convert'' part
                 then replace ''convert it to'' (''convert '' @ ctx @ ''lead to'') part
                 else part)
           else if startswith part ''which''
           then (if contains ''can do'' part
                 then replace ''this steps'' (''the '' @ ctx @ ''lead steps'') part
                 else part)
           else part
      else part)"

text \<open>
  Lines 153-168: the loop \<open>for i, part in enumerate(parts)\<close>, with the list
  \<open>split_questions\<close> built so far.
\<close>

fun split_loop :: "string \<Rightarrow> nat \<Rightarrow> string list \<Rightarrow> string list \<Rightarrow> string list" where
  "split_loop ctx i [] split_questions = split_questions"
| "split_loop ctx i (part # parts) split_questions =
     (if i = 0
      then split_loop ctx (Suc i) parts (split_questions @ [strip part])
      else split_loop ctx (Suc i) parts (split_questions @ [repair_part ctx (strip part)]))"

text \<open>
  The function itself. Its first argument is what \<open>chain.invoke\<close> (the prompt, the
  model and the comma-separated list parser, lines 121-140) does on the question: it
  raises, or it returns a list of strings. An exception is not caught here.
\<close>

definition split_question_into_parts :: "exn + string list \<Rightarrow> string \<Rightarrow> exn + string list" where
  "split_question_into_parts invoked question =
     (case invoked of
        Inl e \<Rightarrow> Inl e
      | Inr result \<Rightarrow>
          if result = [] \<or> length result = 1
          then let parts = split '' and '' question
               in if length parts > 1
                  then Inr (split_loop (base_context (hd parts)) 0 parts [])
                  else Inr result
          else Inr result)"

section \<open>The orchestrator: \<open>chat\<close>\<close>

text \<open>
  The world around \<open>chat\<close>: whether \<open>PERSIST_DIR\<close> exists, what \<open>build_chain\<close>
  raises if it does, what the decomposer's model call does on a question, and what
  the \<open>n\<close>-th call of the retrieval chain does on a sub-question (its answer text, or
  an exception).
\<close>

record world =
  persist_dir_exists :: bool
  build_chain_raises :: "exn option"
  decomposer_invoke :: "string \<Rightarrow> exn + string list"
  chain_invoke :: "nat \<Rightarrow> string \<Rightarrow> exn + string"

text \<open>What \<open>chat\<close> does, in order: its calls of the collaborators and what it prints.\<close>

datatype event =
    BuildChain
  | Decompose string
  | PrintSplitFailed exn
  | PrintQuestion nat string
  | Retrieve string
  | PrintAnswer string

definition no_vector_store :: exn where
  "no_vector_store =
     RuntimeError ''No vector store found at chroma_db. Run `python main.py ingest` first.''"

text \<open>Lines 273-277: the loop over the sub-questions, numbered from \<open>i\<close>.\<close>

fun answer_all :: "world \<Rightarrow> nat \<Rightarrow> string list \<Rightarrow> event list \<Rightarrow> event list \<times> (exn + unit)" where
  "answer_all w i [] trace = (trace, Inr ())"
| "answer_all w i (q # qs) trace =
     (case chain_invoke w i q of
        Inl e \<Rightarrow> (trace @ [PrintQuestion i q, Retrieve q], Inl e)
      | Inr answer \<Rightarrow>
          answer_all w (Suc i) qs
            (trace @ [PrintQuestion i q, Retrieve q,
                      PrintAnswer (enhance_response_authority answer)]))"

definition chat :: "world \<Rightarrow> string \<Rightarrow> event list \<times> (exn + unit)" where
  "chat w question =
     (if \<not> persist_dir_exists w then ([], Inl no_vector_store)
      else case build_chain_raises w of
        Some e \<Rightarrow> ([BuildChain], Inl e)
      | None \<Rightarrow>
          (case split_question_into_parts (decomposer_invoke w question) question of
             Inl e \<Rightarrow>
               answer_all w 1 [question] [BuildChain, Decompose question, PrintSplitFailed e]
           | Inr sub_questions \<Rightarrow>
               answer_all w 1 sub_questions [BuildChain, Decompose question]))"

section \<open>Facts about the string operations\<close>

lemma startswith_iff: "startswith s p \<longleftrightarrow> (\<exists>t. s = p @ t)"
  by (induction s p rule: startswith.induct) auto


lemma contains_nonempty: "contains sub s \<Longrightarrow> sub \<noteq> [] \<Longrightarrow> s \<noteq> []"
  by (cases s) auto

lemma is_refusal_nonempty: "is_refusal response \<Longrightarrow> response \<noteq> []"
  by (auto simp: is_refusal_def refusal_phrases_def lower_def)

lemma add_opener_nonempty: "r \<noteq> [] \<Longrightarrow> add_opener r \<noteq> []"
  by (simp add: add_opener_def)

lemma fallback_sentence_nonempty: "fallback_sentence \<noteq> []"
  by (simp add: fallback_sentence_def)

lemma not_refusal_Nil: "\<not> is_refusal []"
  by (simp add: is_refusal_def refusal_phrases_def lower_def)

lemma cleaned_Nil: "cleaned [] = []"
  by (simp add: cleaned_def rewrite_def formal_phrases_def verbose_phrases_def strip_def split_def newline_def)

section \<open>The normalizer returns a non-empty answer\<close>

text \<open>
  Claim C4. \<open>enhance_response_authority\<close> is a total function of its input string,
  and for every input, the empty string included, the string it returns is not empty;
  on the empty input it returns the fixed fallback sentence.
\<close>

theorem enhance_response_authority_total_nonempty:
  "enhance_response_authority response \<noteq> [] \<and>
   enhance_response_authority [] = ''I can help you with that based on the system documentation.''"
proof
  show "enhance_response_authority response \<noteq> []"
  proof (cases "is_refusal response")
    case True
    then show ?thesis
      by (simp add: enhance_response_authority_def is_refusal_nonempty)
  next
    case False
    then show ?thesis
      by (simp add: enhance_response_authority_def Let_def add_opener_nonempty
          fallback_sentence_nonempty)
  qed
next
  show "enhance_response_authority [] = ''I can help you with that based on the system documentation.''"
    by (simp add: enhance_response_authority_def not_refusal_Nil cleaned_Nil fallback_sentence_def)
qed

text \<open>
  Claim C5. An input whose lowercased text contains "cannot answer", "not available"
  or "don't have information" is returned verbatim: no rewrite rule is applied to it.
\<close>

theorem short_circuit_verbatim:
  "contains ''cannot answer'' (lower response) \<or> contains ''not available'' (lower response)
     \<or> contains ''don't have information'' (lower response)
   \<Longrightarrow> enhance_response_authority response = response"
  by (auto simp: enhance_response_authority_def is_refusal_def refusal_phrases_def)

theorem short_circuit_verbatim_witness:
  "contains ''not available'' (lower ''**That is Not Available.**'') \<and>
   enhance_response_authority ''**That is Not Available.**'' = ''**That is Not Available.**''"
proof -
  have h: "contains ''not available'' (lower ''**That is Not Available.**'')"
    by code_simp
  then show ?thesis using short_circuit_verbatim [of "''**That is Not Available.**''"] by blast
qed

section \<open>The decomposer\<close>

subsection \<open>Splitting and the loop over the fragments\<close>

lemma split_acc_nonempty: "split_acc sep s cur \<noteq> []"
  by (induction sep s cur rule: split_acc.induct) auto

lemma split_acc_many_iff:
  "sep \<noteq> [] \<Longrightarrow> 1 < length (split_acc sep s cur) \<longleftrightarrow> contains sep s"
proof (induction sep s cur rule: split_acc.induct)
  case (1 sep cur)
  then show ?case by simp
next
  case (2 sep c cs cur)
  show ?case
  proof (cases "startswith (c # cs) sep")
    case True
    have "split_acc sep (drop (length sep) (c # cs)) [] \<noteq> []"
      by (rule split_acc_nonempty)
    then have "0 < length (split_acc sep (drop (length sep) (c # cs)) [])"
      by simp
    then show ?thesis using True "2.prems" by simp
  next
    case False
    then show ?thesis using "2.IH"(2) "2.prems" by simp
  qed
qed

lemma split_many_iff: "sep \<noteq> [] \<Longrightarrow> 1 < length (split sep s) \<longleftrightarrow> contains sep s"
  using split_acc_many_iff [of sep s "[]"] by (simp add: split_def)

text \<open>Joining the pieces with the separator gives the string back.\<close>

lemma join_split_acc: "sep \<noteq> [] \<Longrightarrow> join sep (split_acc sep s cur) = cur @ s"
proof (induction sep s cur rule: split_acc.induct)
  case (1 sep cur)
  then show ?case by simp
next
  case (2 sep c cs cur)
  show ?case
  proof (cases "startswith (c # cs) sep")
    case True
    obtain x xs where xs: "split_acc sep (drop (length sep) (c # cs)) [] = x # xs"
      using split_acc_nonempty [of sep "drop (length sep) (c # cs)" "[]"]
      by (cases "split_acc sep (drop (length sep) (c # cs)) []") auto
    have ih: "join sep (split_acc sep (drop (length sep) (c # cs)) []) = drop (length sep) (c # cs)"
      using "2.IH"(1) True "2.prems" by simp
    obtain t where t: "c # cs = sep @ t"
      using True by (auto simp: startswith_iff)
    then have "sep @ drop (length sep) (c # cs) = c # cs"
      by simp
    moreover have "join sep (cur # x # xs) = cur @ sep @ join sep (x # xs)"
      by simp
    ultimately show ?thesis
      using True "2.prems" ih xs by (simp del: drop_Cons')
  next
    case False
    then show ?thesis using "2.IH"(2) "2.prems" by simp
  qed
qed

lemma join_split: "sep \<noteq> [] \<Longrightarrow> join sep (split sep s) = s"
  by (simp add: split_def join_split_acc)

lemma split_loop_later:
  "split_loop ctx (Suc i) parts acc = acc @ map (\<lambda>p. repair_part ctx (strip p)) parts"
  by (induction parts arbitrary: i acc) auto

lemma replace_first_at_start:
  "old \<noteq> [] \<Longrightarrow> startswith s old \<Longrightarrow> replace_first old new s = new @ drop (length old) s"
  by (cases s; cases old) auto

lemma fallback_path:
  assumes "result = [] \<or> length result = 1"
    and "split '' and '' question = first # second # rest"
  shows "split_question_into_parts (Inr result) question =
         Inr (strip first # map (\<lambda>p. repair_part (base_context first) (strip p)) (second # rest))"
  using assms by (auto simp: split_question_into_parts_def Let_def split_loop_later)

lemma split_two_or_more:
  assumes "contains '' and '' question"
  obtains first second rest where "split '' and '' question = first # second # rest"
proof -
  have "1 < length (split '' and '' question)"
    using assms split_many_iff [of "'' and ''" question] by simp
  then show ?thesis
    using that by (cases "split '' and '' question" rule: list.exhaust; simp)
      (metis length_0_conv list.exhaust not_less_zero)
qed

lemma split_single:
  assumes "\<not> contains '' and '' question"
  shows "length (split '' and '' question) \<le> 1"
  using assms split_many_iff [of "'' and ''" question] by simp

subsection \<open>What the decomposer returns\<close>

text \<open>
  Claim C1, as amended. \<open>split_question_into_parts\<close> returns a non-empty sequence
  whenever the model call returned at least one item or the question contains " and ".
  When the model call returned exactly one item and the question has no " and ", the
  result is that one item of the model (the original question only if the model echoed
  it). When the model call raises, the function raises too.
\<close>

theorem split_question_into_parts_result:
  "(result \<noteq> [] \<or> contains '' and '' question \<longrightarrow>
      (\<exists>subs. split_question_into_parts (Inr result) question = Inr subs \<and> subs \<noteq> [])) \<and>
   (length result = 1 \<and> \<not> contains '' and '' question \<longrightarrow>
      split_question_into_parts (Inr result) question = Inr result) \<and>
   split_question_into_parts (Inl e) question = Inl e"
proof (intro conjI impI)
  assume a: "result \<noteq> [] \<or> contains '' and '' question"
  show "\<exists>subs. split_question_into_parts (Inr result) question = Inr subs \<and> subs \<noteq> []"
  proof (cases "contains '' and '' question \<and> (result = [] \<or> length result = 1)")
    case True
    then obtain first second rest where "split '' and '' question = first # second # rest"
      using split_two_or_more by blast
    then show ?thesis
      using True fallback_path [of result question first second rest] by simp
  next
    case False
    then have "split_question_into_parts (Inr result) question = Inr result"
      using split_single [of question]
      by (auto simp: split_question_into_parts_def Let_def)
    moreover have "result \<noteq> []" using a False by auto
    ultimately show ?thesis by simp
  qed
next
  assume "length result = 1 \<and> \<not> contains '' and '' question"
  then show "split_question_into_parts (Inr result) question = Inr result"
    using split_single [of question]
    by (auto simp: split_question_into_parts_def Let_def)
next
  show "split_question_into_parts (Inl e) question = Inl e"
    by (simp add: split_question_into_parts_def)
qed

theorem split_question_into_parts_result_witness:
  "length [''Hello?''] = 1 \<and> \<not> contains '' and '' ''hello'' \<and>
   split_question_into_parts (Inr [''Hello?'']) ''hello'' = Inr [''Hello?''] \<and>
   split_question_into_parts (Inl (Exception ''timeout'')) ''hello'' = Inl (Exception ''timeout'')"
proof -
  have h: "length [''Hello?''] = 1 \<and> \<not> contains '' and '' ''hello''"
    by simp
  then show ?thesis
    using split_question_into_parts_result [of "[''Hello?'']" "''hello''" "Exception ''timeout''"]
    by blast
qed

theorem single_item_not_question_counterexample:
  "\<not> contains '' and '' ''hello'' \<and>
   split_question_into_parts (Inr [''Hello?'']) ''hello'' \<noteq> Inr [''hello''] \<and>
   split_question_into_parts (Inl (Exception ''timeout'')) ''hello'' \<noteq> Inr [''hello'']"
  by (simp add: split_question_into_parts_def split_def)

text \<open>The case the amended claim leaves out: an empty list from the model, no " and ".\<close>

lemma empty_result_returned: "split_question_into_parts (Inr []) ''hello'' = Inr []"
  by (simp add: split_question_into_parts_def split_def)

text \<open>
  Claim C2, as amended. The literal " and " split is used in two cases: the model call
  returned an empty list, or exactly one item. For a question containing " and " the
  result is then the sequence of the fragments, the first stripped, the later ones
  stripped and repaired. When the model call raises, the exception leaves
  \<open>split_question_into_parts\<close>: there is no split.
\<close>

theorem fallback_on_empty_or_single:
  assumes "contains '' and '' question"
    and "result = [] \<or> length result = 1"
  shows "(\<exists>first rest. split '' and '' question = first # rest \<and> rest \<noteq> [] \<and>
            split_question_into_parts (Inr result) question =
              Inr (strip first # map (\<lambda>p. repair_part (base_context first) (strip p)) rest)) \<and>
         split_question_into_parts (Inl e) question = Inl e"
proof
  obtain first second rest where s: "split '' and '' question = first # second # rest"
    using assms(1) split_two_or_more by blast
  then show "\<exists>first rest. split '' and '' question = first # rest \<and> rest \<noteq> [] \<and>
      split_question_into_parts (Inr result) question =
        Inr (strip first # map (\<lambda>p. repair_part (base_context first) (strip p)) rest)"
    using fallback_path [OF assms(2) s] by blast
next
  show "split_question_into_parts (Inl e) question = Inl e"
    by (simp add: split_question_into_parts_def)
qed

theorem fallback_on_empty_or_single_witness:
  "contains '' and '' ''a and b'' \<and>
   split_question_into_parts (Inr [''a and b'']) ''a and b'' = Inr [''a'', ''b'']"
proof -
  have h1: "contains '' and '' ''a and b''" by simp
  have h2: "[''a and b''] = [] \<or> length [''a and b''] = 1" by simp
  have s: "split '' and '' ''a and b'' = [''a'', ''b'']" by (simp add: split_def)
  have r: "strip ''a'' = ''a''" "strip ''b'' = ''b''" "base_context ''a'' = []"
    by (simp_all add: strip_def isspace_def base_context_def lower_def lower_char_def)
  show ?thesis
    using fallback_on_empty_or_single [OF h1 h2, of "Exception ''timeout''"] h1 s r
    by (auto simp: repair_part_def)
qed

theorem error_gives_no_split_counterexample:
  "contains '' and '' ''a and b'' \<and>
   split_question_into_parts (Inl (Exception ''timeout'')) ''a and b'' = Inl (Exception ''timeout'') \<and>
   split_question_into_parts (Inl (Exception ''timeout'')) ''a and b''
     \<noteq> Inr (split '' and '' ''a and b'')"
  by (simp add: split_question_into_parts_def)

subsection \<open>The repair of a "how to" fragment\<close>

text \<open>
  Claim C6. On the fallback path (the model call returned no item or one item, and the
  " and " split gives two fragments or more), when a keyword among tiling, repair and
  excavation is found in the lowercased first fragment, taken in that order of
  priority, and the second fragment, stripped, starts with "how to" and its lowercased
  text does not contain the keyword, the second sub-question returned is the fragment
  with the keyword put in right after "how to".
\<close>

theorem how_to_gets_domain_keyword:
  assumes "result = [] \<or> length result = 1"
    and "split '' and '' question = first # second # rest"
    and "(kw = ''tiling'' \<and> contains ''tiling'' (lower first)) \<or>
         (kw = ''repair'' \<and> \<not> contains ''tiling'' (lower first) \<and>
            contains ''repair'' (lower first)) \<or>
         (kw = ''excavation'' \<and> \<not> contains ''tiling'' (lower first) \<and>
            \<not> contains ''repair'' (lower first) \<and> contains ''excavation'' (lower first))"
    and "startswith (strip second) ''how to''"
    and "\<not> contains kw (lower (strip second))"
  shows "\<exists>others. split_question_into_parts (Inr result) question =
           Inr (strip first # (''how to '' @ kw @ '' '' @ drop 6 (strip second)) # others)"
proof -
  have ctx: "base_context first = kw @ '' ''"
    using assms(3) by (auto simp: base_context_def)
  have kw: "strip (kw @ '' '') = kw"
    using assms(3) by (auto simp: strip_def isspace_def)
  have "repair_part (kw @ '' '') (strip second) =
          replace_first ''how to'' (''how to '' @ kw @ '' '') (strip second)"
    using assms(4,5) kw by (simp add: repair_part_def)
  also have "\<dots> = (''how to '' @ kw @ '' '') @ drop (length ''how to'') (strip second)"
    using assms(4) by (intro replace_first_at_start) simp_all
  finally have r: "repair_part (base_context first) (strip second) =
      ''how to '' @ kw @ '' '' @ drop 6 (strip second)"
    using ctx by (simp add: eval_nat_numeral)
  show ?thesis
    unfolding fallback_path [OF assms(1,2)] using r by simp
qed

theorem how_to_gets_domain_keyword_witness:
  "split '' and '' ''Tiling lead and how to add it'' = [''Tiling lead'', ''how to add it''] \<and>
   contains ''tiling'' (lower ''Tiling lead'') \<and>
   startswith (strip ''how to add it'') ''how to'' \<and>
   \<not> contains ''tiling'' (lower (strip ''how to add it'')) \<and>
   split_question_into_parts (Inr []) ''Tiling lead and how to add it'' =
     Inr [''Tiling lead'', ''how to tiling  add it'']"
proof -
  have h2: "split '' and '' ''Tiling lead and how to add it'' = [''Tiling lead'', ''how to add it'']"
    by code_simp
  have c: "contains ''tiling'' (lower ''Tiling lead'')"
    by code_simp
  then have h3: "(''tiling'' = ''tiling'' \<and> contains ''tiling'' (lower ''Tiling lead'')) \<or>
         (''tiling'' = ''repair'' \<and> \<not> contains ''tiling'' (lower ''Tiling lead'') \<and>
            contains ''repair'' (lower ''Tiling lead'')) \<or>
         (''tiling'' = ''excavation'' \<and> \<not> contains ''tiling'' (lower ''Tiling lead'') \<and>
            \<not> contains ''repair'' (lower ''Tiling lead'') \<and>
            contains ''excavation'' (lower ''Tiling lead''))"
    by blast
  have h4: "startswith (strip ''how to add it'') ''how to''"
    by code_simp
  have h5: "\<not> contains ''tiling'' (lower (strip ''how to add it''))"
    by code_simp
  have s: "strip ''Tiling lead'' = ''Tiling lead''" "strip ''how to add it'' = ''how to add it''"
    by code_simp+
  have h1: "[] = [] \<or> length ([] :: string list) = 1" by simp
  obtain others where "split_question_into_parts (Inr []) ''Tiling lead and how to add it'' =
      Inr (''Tiling lead'' # ''how to tiling  add it'' # others)"
    using how_to_gets_domain_keyword [OF h1 h2 h3 h4 h5] s by auto
  moreover have "split_question_into_parts (Inr []) ''Tiling lead and how to add it'' =
     Inr [''Tiling lead'', ''how to tiling  add it'']"
    by code_simp
  ultimately show ?thesis using h2 c h4 h5 by simp
qed

section \<open>The orchestrator\<close>

text \<open>
  Claim C8. When the directory of the vector store does not exist, \<open>chat\<close> raises the
  error that tells the operator to run ingest first, and it has done nothing before:
  no chain is built, nothing is decomposed, retrieved or printed.
\<close>

theorem chat_without_store:
  assumes "\<not> persist_dir_exists w"
  shows "chat w question =
    ([], Inl (RuntimeError ''No vector store found at chroma_db. Run `python main.py ingest` first.''))"
  using assms by (simp add: chat_def no_vector_store_def)

theorem chat_without_store_witness:
  "\<not> persist_dir_exists \<lparr>persist_dir_exists = False, build_chain_raises = None,
      decomposer_invoke = (\<lambda>q. Inr [q]), chain_invoke = (\<lambda>i q. Inr ''ok'')\<rparr> \<and>
   chat \<lparr>persist_dir_exists = False, build_chain_raises = None,
      decomposer_invoke = (\<lambda>q. Inr [q]), chain_invoke = (\<lambda>i q. Inr ''ok'')\<rparr> ''What is a lead?'' =
    ([], Inl (RuntimeError ''No vector store found at chroma_db. Run `python main.py ingest` first.''))"
proof -
  have h: "\<not> persist_dir_exists \<lparr>persist_dir_exists = False, build_chain_raises = None,
      decomposer_invoke = (\<lambda>q. Inr [q]), chain_invoke = (\<lambda>i q. Inr ''ok'')\<rparr>"
    by simp
  show ?thesis
    using h chat_without_store [OF h, of "''What is a lead?''"] by simp
qed

text \<open>
  Claim C7. When the decomposer raises, \<open>chat\<close> prints the failure and goes on with
  the whole original question as its only sub-question: the exception of the
  decomposer does not leave \<open>chat\<close>, whose outcome is that of answering this one
  question.
\<close>

theorem chat_recovers_from_decomposer:
  assumes "persist_dir_exists w"
    and "build_chain_raises w = None"
    and "split_question_into_parts (decomposer_invoke w question) question = Inl e"
  shows "chat w question =
    (case chain_invoke w 1 question of
       Inl e' \<Rightarrow>
         ([BuildChain, Decompose question, PrintSplitFailed e,
           PrintQuestion 1 question, Retrieve question], Inl e')
     | Inr answer \<Rightarrow>
         ([BuildChain, Decompose question, PrintSplitFailed e,
           PrintQuestion 1 question, Retrieve question,
           PrintAnswer (enhance_response_authority answer)], Inr ()))"
  using assms by (simp add: chat_def split: sum.splits)

theorem chat_recovers_from_decomposer_witness:
  "split_question_into_parts (Inl (Exception ''timeout'')) ''a and b'' = Inl (Exception ''timeout'') \<and>
   chat \<lparr>persist_dir_exists = True, build_chain_raises = None,
      decomposer_invoke = (\<lambda>q. Inl (Exception ''timeout'')),
      chain_invoke = (\<lambda>i q. Inr ''not available'')\<rparr> ''a and b'' =
    ([BuildChain, Decompose ''a and b'', PrintSplitFailed (Exception ''timeout''),
      PrintQuestion 1 ''a and b'', Retrieve ''a and b'', PrintAnswer ''not available''], Inr ())"
proof -
  let ?w = "\<lparr>persist_dir_exists = True, build_chain_raises = None,
      decomposer_invoke = (\<lambda>q. Inl (Exception ''timeout'')),
      chain_invoke = (\<lambda>i q. Inr ''not available'')\<rparr>"
  have h1: "persist_dir_exists ?w" by simp
  have h2: "build_chain_raises ?w = None" by simp
  have h3: "split_question_into_parts (decomposer_invoke ?w ''a and b'') ''a and b'' =
      Inl (Exception ''timeout'')"
    by (simp add: split_question_into_parts_def)
  have a: "enhance_response_authority ''not available'' = ''not available''"
    by code_simp
  show ?thesis
    using chat_recovers_from_decomposer [OF h1 h2 h3] h3 a by simp
qed

section \<open>Running the normalizer twice\<close>

lemma twice_1: "enhance_response_authority ''*- *a'' = ''**a''"
  by code_simp

lemma twice_2: "enhance_response_authority ''**a'' = ''a''"
  by code_simp

text \<open>
  Claim C9. \<open>enhance_response_authority\<close> is not idempotent: there is an input on
  which a second run changes the result of the first.
\<close>

theorem not_idempotent:
  "\<exists>x. enhance_response_authority (enhance_response_authority x) \<noteq> enhance_response_authority x"
proof
  show "enhance_response_authority (enhance_response_authority ''*- *a'')
          \<noteq> enhance_response_authority ''*- *a''"
    by (simp add: twice_1 twice_2)
qed

lemma startswith_trans: "startswith a b \<Longrightarrow> startswith b c \<Longrightarrow> startswith a c"
  by (auto simp: startswith_iff)

lemma lower_added_prefixes:
  "map lower added_prefixes =
     [''to do this: '', ''steps:'' @ newline, ''here's how equipment works: '']"
  by code_simp

lemma prefixed_has_starter:
  assumes "list_ex (\<lambda>p. startswith (lower r) (lower p)) added_prefixes"
  shows "list_ex (\<lambda>starter. startswith (lower r) starter) starters"
proof -
  have "list_ex (\<lambda>p. startswith (lower r) p) (map lower added_prefixes)"
    using assms by (simp add: list_ex_iff)
  then consider "startswith (lower r) ''to do this: ''"
    | "startswith (lower r) (''steps:'' @ newline)"
    | "startswith (lower r) ''here's how equipment works: ''"
    unfolding lower_added_prefixes by auto
  then have "startswith (lower r) ''to'' \<or> startswith (lower r) ''steps'' \<or>
             startswith (lower r) ''here''"
    by cases (auto simp: startswith_iff)
  then show ?thesis
    by (auto simp: starters_def)
qed

lemma add_opener_cases:
  "add_opener r = r \<or>
   (list_ex (\<lambda>p. add_opener r = p @ r) added_prefixes \<and>
    \<not> list_ex (\<lambda>starter. startswith (lower r) starter) starters)"
  by (simp add: add_opener_def added_prefixes_def)

text \<open>
  Claim C10, as amended. Each of the three prefixes begins, in lower case, with one of
  the openers "to", "steps", "here"; so the final rule leaves alone a text that begins,
  case-insensitively, with one of the prefixes, and one run of the normalizer returns
  the input, the fallback sentence, the cleaned text, or one prefix in front of a
  cleaned text that does not begin with any of the prefixes.
\<close>

theorem prefix_rule_skips_prefixed_text:
  "list_all (\<lambda>p. list_ex (\<lambda>starter. startswith (lower p) starter) [''to'', ''steps'', ''here''])
     added_prefixes \<and>
   (list_ex (\<lambda>p. startswith (lower r) (lower p)) added_prefixes \<longrightarrow> add_opener r = r) \<and>
   (enhance_response_authority x = x \<or>
    enhance_response_authority x = fallback_sentence \<or>
    enhance_response_authority x = cleaned x \<or>
    (list_ex (\<lambda>p. enhance_response_authority x = p @ cleaned x) added_prefixes \<and>
     \<not> list_ex (\<lambda>p. startswith (lower (cleaned x)) (lower p)) added_prefixes))"
proof (intro conjI impI)
  show "list_all (\<lambda>p. list_ex (\<lambda>starter. startswith (lower p) starter) [''to'', ''steps'', ''here''])
     added_prefixes"
    by code_simp
next
  assume "list_ex (\<lambda>p. startswith (lower r) (lower p)) added_prefixes"
  then have "list_ex (\<lambda>starter. startswith (lower r) starter) starters"
    by (rule prefixed_has_starter)
  then show "add_opener r = r"
    using add_opener_cases [of r] by blast
next
  show "enhance_response_authority x = x \<or>
    enhance_response_authority x = fallback_sentence \<or>
    enhance_response_authority x = cleaned x \<or>
    (list_ex (\<lambda>p. enhance_response_authority x = p @ cleaned x) added_prefixes \<and>
     \<not> list_ex (\<lambda>p. startswith (lower (cleaned x)) (lower p)) added_prefixes)"
    using add_opener_cases [of "cleaned x"] prefixed_has_starter [of "cleaned x"]
    by (auto simp: enhance_response_authority_def Let_def)
qed

theorem prefix_rule_skips_prefixed_text_witness:
  "list_ex (\<lambda>p. startswith (lower ''To do this: click Save'') (lower p)) added_prefixes \<and>
   add_opener ''To do this: click Save'' = ''To do this: click Save'' \<and>
   enhance_response_authority ''Just click Save'' = ''Just click Save''"
proof -
  have h: "list_ex (\<lambda>p. startswith (lower ''To do this: click Save'') (lower p)) added_prefixes"
    by code_simp
  have e: "enhance_response_authority ''Just click Save'' = ''Just click Save''"
    by code_simp
  show ?thesis
    using prefix_rule_skips_prefixed_text [of "''To do this: click Save''" "''Just click Save''"] h e
    by blast
qed

theorem doubled_prefix_counterexample:
  "enhance_response_authority ''*- *To do this: click x'' = ''To do this: **To do this: click x'' \<and>
   enhance_response_authority (enhance_response_authority ''*- *To do this: click x'') =
     ''To do this: '' @ ''To do this: '' @ ''click x''"
  by code_simp

section \<open>What one run removes\<close>

subsection \<open>Counting a character through the passes\<close>

lemma count_drop_le: "count_list (drop k s) q \<le> count_list s q"
proof -
  have "count_list (take k s @ drop k s) q = count_list (take k s) q + count_list (drop k s) q"
    by (rule count_list_append)
  then show ?thesis by simp
qed

lemma count_replace_le:
  "count_list new q \<le> count_list old q \<Longrightarrow> count_list (replace old new s) q \<le> count_list s q"
proof (induction old new s rule: replace.induct)
  case (1 old new)
  then show ?case by simp
next
  case (2 old new c cs)
  show ?case
  proof (cases "old \<noteq> [] \<and> startswith (c # cs) old")
    case True
    then obtain t where t: "c # cs = old @ t"
      by (auto simp: startswith_iff)
    then have d: "drop (length old) (c # cs) = t"
      by (metis append_eq_conv_conj)
    have "count_list (replace old new t) q \<le> count_list t q"
      using "2.IH"(1) True "2.prems" d by simp
    moreover have "count_list (c # cs) q = count_list old q + count_list t q"
      unfolding t by simp
    moreover have "replace old new (c # cs) = new @ replace old new t"
      using True d by (simp del: drop_Cons')
    ultimately show ?thesis
      using "2.prems" by (simp del: replace.simps count_list.simps)
  next
    case False
    then show ?thesis using "2.IH"(2) "2.prems" by auto
  qed
qed



lemma count_remove_all_le: "count_list (remove_all phrases s) q \<le> count_list s q"
proof (induction phrases arbitrary: s)
  case Nil
  then show ?case by simp
next
  case (Cons p ps)
  have "count_list (remove_all ps (replace p [] s)) q \<le> count_list (replace p [] s) q"
    by (rule Cons.IH)
  also have "\<dots> \<le> count_list s q"
    by (rule count_replace_le) simp
  finally show ?case by simp
qed


lemma count_dropWhile_le: "count_list (dropWhile P s) q \<le> count_list s q"
  unfolding dropWhile_eq_drop by (rule count_drop_le)

lemma count_strip_le: "count_list (strip s) q \<le> count_list s q"
proof -
  have "count_list (strip s) q = count_list (dropWhile isspace (rev (dropWhile isspace s))) q"
    by (simp add: strip_def)
  also have "\<dots> \<le> count_list (rev (dropWhile isspace s)) q"
    by (rule count_dropWhile_le)
  also have "\<dots> = count_list (dropWhile isspace s) q"
    by simp
  also have "\<dots> \<le> count_list s q"
    by (rule count_dropWhile_le)
  finally show ?thesis .
qed

lemma count_split_acc_le:
  "sum_list (map (\<lambda>l. count_list l q) (split_acc sep s cur)) \<le> count_list cur q + count_list s q"
proof (induction sep s cur rule: split_acc.induct)
  case (1 sep cur)
  then show ?case by simp
next
  case (2 sep c cs cur)
  show ?case
  proof (cases "sep \<noteq> [] \<and> startswith (c # cs) sep")
    case True
    have "sum_list (map (\<lambda>l. count_list l q) (split_acc sep (drop (length sep) (c # cs)) []))
        \<le> count_list (drop (length sep) (c # cs)) q"
      using "2.IH"(1) True by simp
    also have "\<dots> \<le> count_list (c # cs) q"
      by (rule count_drop_le)
    finally show ?thesis
      using True by (simp del: drop_Cons' count_list.simps)
  next
    case False
    then show ?thesis using "2.IH"(2) by auto
  qed
qed

lemma count_cleaned_lines_le:
  "sum_list (map (\<lambda>l. count_list l q) (cleaned_lines lines))
     \<le> sum_list (map (\<lambda>l. count_list l q) lines)"
proof (induction lines)
  case Nil
  then show ?case by simp
next
  case (Cons line lines)
  have "count_list (strip line) q \<le> count_list line q"
    by (rule count_strip_le)
  then show ?case
    using Cons.IH by (simp add: Let_def del: count_list.simps)
qed

lemma count_join:
  "q \<notin> set sep \<Longrightarrow> count_list (join sep lines) q = sum_list (map (\<lambda>l. count_list l q) lines)"
  by (induction sep lines rule: join.induct) simp_all

lemma count_lines_le:
  assumes "q \<notin> set newline"
  shows "count_list (join newline (cleaned_lines (split newline s))) q \<le> count_list s q"
proof -
  have "count_list (join newline (cleaned_lines (split newline s))) q =
      sum_list (map (\<lambda>l. count_list l q) (cleaned_lines (split newline s)))"
    using assms by (rule count_join)
  also have "\<dots> \<le> sum_list (map (\<lambda>l. count_list l q) (split newline s))"
    by (rule count_cleaned_lines_le)
  also have "\<dots> \<le> count_list s q"
    using count_split_acc_le [of q newline s "[]"] by (simp add: split_def)
  finally show ?thesis .
qed

subsection \<open>A marker that is present stays present until its own pass\<close>





subsection \<open>The passes of the normalizer, one after the other\<close>

lemma rewrite_passes:
  "rewrite t =
     strip (replace ''can only be added'' ''can only be used in''
       (replace ''cannot be added'' ''can't be used in''
         (replace ''documented procedures'' ''steps''
           (replace ''official system procedures'' ''steps''
             (replace ''The documentation specifies'' []
               (replace ''The system requires'' ''You need to''
                 (replace ''* '' [] (replace ''- '' [] (replace ''**'' []
                   (remove_all formal_phrases t))))))))))"
  unfolding rewrite_def Let_def ..

lemma tone_counts:
  assumes "q = CHR ''*'' \<or> q = CHR ''-'' \<or> q = CHR ''c''"
  shows "count_list ''can only be used in'' q \<le> count_list ''can only be added'' q"
    and "count_list ''can't be used in'' q \<le> count_list ''cannot be added'' q"
    and "count_list ''steps'' q \<le> count_list ''documented procedures'' q"
    and "count_list ''steps'' q \<le> count_list ''official system procedures'' q"
    and "count_list [] q \<le> count_list ''The documentation specifies'' q"
    and "count_list ''You need to'' q \<le> count_list ''The system requires'' q"
  using assms by (elim disjE; hypsubst; simp)+

lemma count_tone_le:
  assumes "q = CHR ''*'' \<or> q = CHR ''-'' \<or> q = CHR ''c''"
  shows "count_list (rewrite t) q
    \<le> count_list (replace ''* '' [] (replace ''- '' [] (replace ''**'' []
         (remove_all formal_phrases t)))) q"
proof -
  define r3 where "r3 = replace ''* '' [] (replace ''- '' [] (replace ''**'' []
         (remove_all formal_phrases t)))"
  define r4 where "r4 = replace ''The system requires'' ''You need to'' r3"
  define r5 where "r5 = replace ''The documentation specifies'' [] r4"
  define r6 where "r6 = replace ''official system procedures'' ''steps'' r5"
  define r7 where "r7 = replace ''documented procedures'' ''steps'' r6"
  define r8 where "r8 = replace ''cannot be added'' ''can't be used in'' r7"
  define r9 where "r9 = replace ''can only be added'' ''can only be used in'' r8"
  have "rewrite t = strip r9"
    unfolding rewrite_passes r9_def r8_def r7_def r6_def r5_def r4_def r3_def by (rule refl)
  then have "count_list (rewrite t) q \<le> count_list r9 q"
    by (simp add: count_strip_le)
  also have "\<dots> \<le> count_list r8 q"
    unfolding r9_def by (rule count_replace_le) (rule tone_counts [OF assms])
  also have "\<dots> \<le> count_list r7 q"
    unfolding r8_def by (rule count_replace_le) (rule tone_counts [OF assms])
  also have "\<dots> \<le> count_list r6 q"
    unfolding r7_def by (rule count_replace_le) (rule tone_counts [OF assms])
  also have "\<dots> \<le> count_list r5 q"
    unfolding r6_def by (rule count_replace_le) (rule tone_counts [OF assms])
  also have "\<dots> \<le> count_list r4 q"
    unfolding r5_def by (rule count_replace_le) (rule tone_counts [OF assms])
  also have "\<dots> \<le> count_list r3 q"
    unfolding r4_def by (rule count_replace_le) (rule tone_counts [OF assms])
  finally show ?thesis
    unfolding r3_def .
qed

lemma count_after_markers:
  assumes "q = CHR ''*'' \<or> q = CHR ''-'' \<or> q = CHR ''c''"
  shows "count_list (cleaned t) q
    \<le> count_list (replace ''* '' [] (replace ''- '' [] (replace ''**'' []
         (remove_all formal_phrases t)))) q"
proof -
  have nl: "q \<notin> set newline"
    using assms by (auto simp: newline_def)
  have "count_list (cleaned t) q \<le> count_list (remove_all verbose_phrases (rewrite t)) q"
    unfolding cleaned_def using nl by (rule count_lines_le)
  also have "\<dots> \<le> count_list (rewrite t) q"
    by (rule count_remove_all_le)
  also have "\<dots> \<le> count_list (replace ''* '' [] (replace ''- '' [] (replace ''**'' []
         (remove_all formal_phrases t)))) q"
    using assms by (rule count_tone_le)
  finally show ?thesis .
qed

subsection \<open>Each run removes a marker or a phrase that is there\<close>


lemma count_cleaned_le:
  assumes "q = CHR ''*'' \<or> q = CHR ''-'' \<or> q = CHR ''c''"
  shows "count_list (cleaned t) q \<le> count_list t q"
proof -
  have "count_list (cleaned t) q
      \<le> count_list (replace ''* '' [] (replace ''- '' [] (replace ''**'' []
           (remove_all formal_phrases t)))) q"
    using assms by (rule count_after_markers)
  also have "\<dots> \<le> count_list (replace ''- '' [] (replace ''**'' [] (remove_all formal_phrases t))) q"
    by (rule count_replace_le) simp
  also have "\<dots> \<le> count_list (replace ''**'' [] (remove_all formal_phrases t)) q"
    by (rule count_replace_le) simp
  also have "\<dots> \<le> count_list (remove_all formal_phrases t) q"
    by (rule count_replace_le) simp
  also have "\<dots> \<le> count_list t q"
    by (rule count_remove_all_le)
  finally show ?thesis .
qed













end
